theory Spec2Isabelle
  imports Complex_Main "HOL-Library.Multiset"
begin

section \<open>Eco-BinGo route optimisation: the model\<close>

text \<open>
  The embedding follows \<^verbatim>\<open>backend.py\<close>: \<^verbatim>\<open>calculate_distance\<close>,
  \<^verbatim>\<open>optimize_route_tsp\<close> and the request handler \<^verbatim>\<open>optimize_route\<close>.
  A Python float is modelled by the real number it denotes. In \<open>calculate_distance\<close> and
  in the handler the operations are the exact ones, so what is proved of them is about
  exact arithmetic: the rounding of the floating-point operations is outside that part
  of the model. The solver is given a second time, as \<open>tsp_loop_fp\<close>, with its
  floating-point computations left open, and what is proved of it holds whatever the
  machine computes.
  An exception is a value: \<open>Inl e\<close> is "raised \<open>e\<close>", \<open>Inr v\<close> is "returned \<open>v\<close>".
\<close>

subsection \<open>The functions of Python's \<^verbatim>\<open>math\<close> module and builtins that the code calls\<close>

datatype py_error = ValueError string

definition math_radians :: "real \<Rightarrow> real" where
  "math_radians x = x * (pi / 180)"

definition math_sqrt :: "real \<Rightarrow> py_error + real" where
  \<comment> \<open>\<^verbatim>\<open>math.sqrt\<close> raises ValueError on a negative argument.\<close>
  "math_sqrt x = (if x < 0 then Inl (ValueError ''math domain error'') else Inr (sqrt x))"

definition math_atan2 :: "real \<Rightarrow> real \<Rightarrow> real" where
  \<comment> \<open>\<^verbatim>\<open>math.atan2(y, x)\<close>: the angle of the point \<open>(x, y)\<close>, in \<open>(-pi, pi]\<close>;
      \<^verbatim>\<open>atan2(0, 0)\<close> is 0.\<close>
  "math_atan2 y x =
     (if 0 < x then arctan (y / x)
      else if x < 0 then (if 0 \<le> y then arctan (y / x) + pi else arctan (y / x) - pi)
      else if 0 < y then pi / 2
      else if y < 0 then - (pi / 2)
      else 0)"

definition py_round :: "real \<Rightarrow> int" where
  \<comment> \<open>\<^verbatim>\<open>round(x)\<close>: the nearest integer, a tie going to the even one.\<close>
  "py_round x =
     (let f = \<lfloor>x\<rfloor>; r = x - of_int f
      in if r < 1 / 2 then f
         else if 1 / 2 < r then f + 1
         else if even f then f else f + 1)"

definition py_round2 :: "real \<Rightarrow> real" where
  \<comment> \<open>\<^verbatim>\<open>round(x, 2)\<close>: the nearest multiple of 0.01, a tie going to the even one.\<close>
  "py_round2 x = of_int (py_round (x * 100)) / 100"

subsection \<open>\<^verbatim>\<open>calculate_distance\<close>\<close>

definition calculate_distance :: "real \<Rightarrow> real \<Rightarrow> real \<Rightarrow> real \<Rightarrow> py_error + real" where
  "calculate_distance lat1 lon1 lat2 lon2 =
     (let R = 6371;
          rlat1 = math_radians lat1; rlon1 = math_radians lon1;
          rlat2 = math_radians lat2; rlon2 = math_radians lon2;
          dlat = rlat2 - rlat1;
          dlon = rlon2 - rlon1;
          a = (sin (dlat / 2))\<^sup>2 + cos rlat1 * cos rlat2 * (sin (dlon / 2))\<^sup>2
      in case math_sqrt a of
           Inl e \<Rightarrow> Inl e
         | Inr s1 \<Rightarrow>
             (case math_sqrt (1 - a) of
                Inl e \<Rightarrow> Inl e
              | Inr s2 \<Rightarrow> Inr (R * (2 * math_atan2 s1 s2))))"

text \<open>
  The distance of the specification (section 4.1), on points \<open>(lat, lon)\<close> in degrees:
  the Haversine formula with Earth radius 6371 km.
\<close>

type_synonym point = "real \<times> real"

definition hav :: "point \<Rightarrow> point \<Rightarrow> real" where
  "hav a b =
     (let phi1 = math_radians (fst a); phi2 = math_radians (fst b);
          dphi = math_radians (fst b - fst a);
          dlam = math_radians (snd b - snd a)
      in (sin (dphi / 2))\<^sup>2 + cos phi1 * cos phi2 * (sin (dlam / 2))\<^sup>2)"

definition distance :: "point \<Rightarrow> point \<Rightarrow> real" where
  "distance a b = 2 * 6371 * math_atan2 (sqrt (hav a b)) (sqrt (1 - hav a b))"

subsection \<open>Python's \<^verbatim>\<open>min(xs, key=f)\<close> and \<^verbatim>\<open>list.remove\<close>\<close>

text \<open>
  \<^verbatim>\<open>min\<close> evaluates the key once per element, left to right, and replaces the candidate
  only when the new key is strictly smaller; it raises ValueError on an empty list, and
  an exception of the key function ends it.
\<close>

fun min_scan :: "('a \<Rightarrow> py_error + real) \<Rightarrow> 'a \<Rightarrow> real \<Rightarrow> 'a list \<Rightarrow> py_error + 'a" where
  "min_scan key best kbest [] = Inr best"
| "min_scan key best kbest (x # xs) =
     (case key x of
        Inl e \<Rightarrow> Inl e
      | Inr kx \<Rightarrow> if kx < kbest then min_scan key x kx xs else min_scan key best kbest xs)"

definition py_min :: "'a list \<Rightarrow> ('a \<Rightarrow> py_error + real) \<Rightarrow> py_error + 'a" where
  "py_min xs key =
     (case xs of
        [] \<Rightarrow> Inl (ValueError ''min() arg is an empty sequence'')
      | x # rest \<Rightarrow> (case key x of Inl e \<Rightarrow> Inl e | Inr kx \<Rightarrow> min_scan key x kx rest))"

definition list_remove :: "'a list \<Rightarrow> 'a \<Rightarrow> py_error + 'a list" where
  \<comment> \<open>\<^verbatim>\<open>xs.remove(x)\<close> deletes the first element equal to \<open>x\<close> and raises ValueError
      when there is none.\<close>
  "list_remove xs x =
     (if x \<in> set xs then Inr (remove1 x xs)
      else Inl (ValueError ''list.remove(x): x not in list''))"

subsection \<open>\<^verbatim>\<open>optimize_route_tsp\<close>\<close>

text \<open>
  A bin handed to the solver is the dictionary that \<^verbatim>\<open>optimize_route\<close> builds, with
  the keys \<^verbatim>\<open>id\<close>, \<^verbatim>\<open>name\<close>, \<^verbatim>\<open>lat\<close>, \<^verbatim>\<open>lon\<close> and \<^verbatim>\<open>fill\<close>.
  The solver reads only \<^verbatim>\<open>lat\<close> and \<^verbatim>\<open>lon\<close> of its current position, which is the
  truck first and the bin visited last afterwards: a \<^typ>\<open>point\<close> in the model.
\<close>

record bin =
  bin_id :: string
  bin_name :: string
  bin_lat :: real
  bin_lon :: real
  bin_fill :: real

definition bin_pos :: "bin \<Rightarrow> point" where
  "bin_pos b = (bin_lat b, bin_lon b)"

text \<open>
  The \<^verbatim>\<open>while remaining:\<close> loop, on the state
  \<open>(current, remaining, route, total_distance)\<close>.
\<close>

function tsp_loop :: "point \<Rightarrow> bin list \<Rightarrow> bin list \<Rightarrow> real \<Rightarrow> py_error + (bin list \<times> real)" where
  "tsp_loop current remaining route total_distance =
     (if remaining = [] then Inr (route, total_distance)
      else
        case py_min remaining
               (\<lambda>b. calculate_distance (fst current) (snd current) (bin_lat b) (bin_lon b)) of
          Inl e \<Rightarrow> Inl e
        | Inr nearest \<Rightarrow>
            (case calculate_distance (fst current) (snd current) (bin_lat nearest) (bin_lon nearest) of
               Inl e \<Rightarrow> Inl e
             | Inr leg \<Rightarrow>
                 (case list_remove remaining nearest of
                    Inl e \<Rightarrow> Inl e
                  | Inr remaining' \<Rightarrow>
                      tsp_loop (bin_lat nearest, bin_lon nearest) remaining'
                        (route @ [nearest]) (total_distance + leg))))"
  by pat_completeness auto
termination
  by (relation "measure (\<lambda>(current, remaining, route, total_distance). length remaining)")
     (auto simp: list_remove_def length_remove1 split: if_splits)

declare tsp_loop.simps [simp del]

definition optimize_route_tsp :: "point \<Rightarrow> bin list \<Rightarrow> py_error + (bin list \<times> real)" where
  "optimize_route_tsp truck_pos bins =
     (if bins = [] then Inr ([], 0) else tsp_loop truck_pos bins [] 0)"

subsection \<open>The solver of the specification (section 4.2)\<close>

text \<open>
  The reference greedy nearest-neighbour order: from the current position, take the
  remaining waypoint at minimum distance (the first such one), then go on from it with
  the rest. The total of a route is the leg from the start to its first waypoint plus
  the consecutive pairwise distances along it.
\<close>

function greedy_order :: "point \<Rightarrow> bin list \<Rightarrow> bin list" where
  "greedy_order current remaining =
     (if remaining = [] then []
      else
        let w = arg_min_list (\<lambda>v. distance current (bin_pos v)) remaining
        in w # greedy_order (bin_pos w) (remove1 w remaining))"
  by pat_completeness auto
termination
  by (relation "measure (\<lambda>(current, remaining). length remaining)")
     (auto simp: length_remove1 arg_min_list_in)

declare greedy_order.simps [simp del]

fun consecutive_sum :: "bin list \<Rightarrow> real" where
  "consecutive_sum (x # y # zs) = distance (bin_pos x) (bin_pos y) + consecutive_sum (y # zs)"
| "consecutive_sum _ = 0"

definition route_total :: "point \<Rightarrow> bin list \<Rightarrow> real" where
  "route_total start order =
     (case order of [] \<Rightarrow> 0 | w # _ \<Rightarrow> distance start (bin_pos w) + consecutive_sum order)"

subsection \<open>The solver over the machine's arithmetic\<close>

text \<open>
  \<^verbatim>\<open>optimize_route_tsp\<close> once more, with the two floating-point computations that it
  makes left open: \<open>cd\<close> is \<^verbatim>\<open>calculate_distance\<close> as the machine evaluates it on
  doubles, which may raise, and \<open>add\<close> is the addition of doubles in
  \<^verbatim>\<open>total_distance += dist\<close>. A double is the real number it denotes, so the comparison
  of two keys in \<^verbatim>\<open>min\<close> is the exact one. The rest is \<open>tsp_loop\<close> word for word, and
  \<open>tsp_loop\<close> is the instance with the exact distance and the exact addition
  (\<open>tsp_loop_exact\<close> below).
\<close>

type_synonym distance_fn = "real \<Rightarrow> real \<Rightarrow> real \<Rightarrow> real \<Rightarrow> py_error + real"

function tsp_loop_fp ::
  "distance_fn \<Rightarrow> (real \<Rightarrow> real \<Rightarrow> real) \<Rightarrow> point \<Rightarrow> bin list \<Rightarrow> bin list \<Rightarrow> real
     \<Rightarrow> py_error + (bin list \<times> real)" where
  "tsp_loop_fp cd add current remaining visited total_distance =
     (if remaining = [] then Inr (visited, total_distance)
      else
        case py_min remaining (\<lambda>b. cd (fst current) (snd current) (bin_lat b) (bin_lon b)) of
          Inl e \<Rightarrow> Inl e
        | Inr nearest \<Rightarrow>
            (case cd (fst current) (snd current) (bin_lat nearest) (bin_lon nearest) of
               Inl e \<Rightarrow> Inl e
             | Inr leg \<Rightarrow>
                 (case list_remove remaining nearest of
                    Inl e \<Rightarrow> Inl e
                  | Inr remaining' \<Rightarrow>
                      tsp_loop_fp cd add (bin_lat nearest, bin_lon nearest) remaining'
                        (visited @ [nearest]) (add total_distance leg))))"
  by pat_completeness auto
termination
  by (relation "measure (\<lambda>(cd, add, current, remaining, visited, total_distance). length remaining)")
     (auto simp: list_remove_def length_remove1 split: if_splits)

declare tsp_loop_fp.simps [simp del]

definition optimize_route_tsp_fp ::
  "distance_fn \<Rightarrow> (real \<Rightarrow> real \<Rightarrow> real) \<Rightarrow> point \<Rightarrow> bin list \<Rightarrow> py_error + (bin list \<times> real)" where
  "optimize_route_tsp_fp cd add truck_pos bins =
     (if bins = [] then Inr ([], 0) else tsp_loop_fp cd add truck_pos bins [] 0)"

text \<open>
  The reference of the specification, for the distances \<open>dv\<close> as they are computed:
  \<open>dval cd\<close> is the value that \<open>cd\<close> returns (its value where \<open>cd\<close> raises is never
  used by a run that returns). The greedy order takes the first waypoint of the pool at
  minimum distance; the legs of an order are the leg from the start to its first
  waypoint and then the consecutive pairs; the running total adds them in visiting
  order. \<open>follows_rule\<close> says of an order that each of its waypoints is, at its step,
  the first of the remaining pool among those that no waypoint of the pool is strictly
  closer than.
\<close>

definition returned :: "py_error + real \<Rightarrow> real" where
  "returned r = (case r of Inr v \<Rightarrow> v | Inl e \<Rightarrow> 0)"

definition dval :: "distance_fn \<Rightarrow> point \<Rightarrow> point \<Rightarrow> real" where
  "dval cd p q = returned (cd (fst p) (snd p) (fst q) (snd q))"

function greedy_order_by :: "(point \<Rightarrow> point \<Rightarrow> real) \<Rightarrow> point \<Rightarrow> bin list \<Rightarrow> bin list" where
  "greedy_order_by dv current remaining =
     (if remaining = [] then []
      else
        let w = arg_min_list (\<lambda>v. dv current (bin_pos v)) remaining
        in w # greedy_order_by dv (bin_pos w) (remove1 w remaining))"
  by pat_completeness auto
termination
  by (relation "measure (\<lambda>(dv, current, remaining). length remaining)")
     (auto simp: length_remove1 arg_min_list_in)

declare greedy_order_by.simps [simp del]

fun legs :: "(point \<Rightarrow> point \<Rightarrow> real) \<Rightarrow> point \<Rightarrow> bin list \<Rightarrow> real list" where
  "legs dv current [] = []"
| "legs dv current (w # ws) = dv current (bin_pos w) # legs dv (bin_pos w) ws"

definition running_total ::
  "(real \<Rightarrow> real \<Rightarrow> real) \<Rightarrow> (point \<Rightarrow> point \<Rightarrow> real) \<Rightarrow> point \<Rightarrow> bin list \<Rightarrow> real" where
  "running_total add dv start order = foldl add 0 (legs dv start order)"

definition first_nearest_by :: "(point \<Rightarrow> point \<Rightarrow> real) \<Rightarrow> point \<Rightarrow> bin list \<Rightarrow> bin option" where
  "first_nearest_by dv current pool =
     find (\<lambda>w. \<forall>v \<in> set pool. dv current (bin_pos w) \<le> dv current (bin_pos v)) pool"

fun follows_rule :: "(point \<Rightarrow> point \<Rightarrow> real) \<Rightarrow> point \<Rightarrow> bin list \<Rightarrow> bin list \<Rightarrow> bool" where
  "follows_rule dv current pool [] = (pool = [])"
| "follows_rule dv current pool (w # rest) =
     (first_nearest_by dv current pool = Some w
      \<and> follows_rule dv (bin_pos w) (remove1 w pool) rest)"

text \<open>
  The length of the path that leaves \<open>current\<close> and visits \<open>order\<close>: what the loop
  adds to \<^verbatim>\<open>total_distance\<close>, leg by leg.
\<close>

fun legs_from :: "point \<Rightarrow> bin list \<Rightarrow> real" where
  "legs_from current [] = 0"
| "legs_from current (w # ws) = distance current (bin_pos w) + legs_from (bin_pos w) ws"

subsection \<open>The request handler \<^verbatim>\<open>optimize_route\<close>\<close>

text \<open>
  The registries \<^verbatim>\<open>dustbins\<close> (a dictionary, read in insertion order) and
  \<^verbatim>\<open>truck\<close> are arguments of the model. The outcome of \<^verbatim>\<open>random.shuffle\<close> is an
  argument too: the function \<open>shuffle\<close> is the rearrangement that the generator makes.
\<close>

record dustbin =
  name :: string
  location :: string
  lat :: real
  lon :: real
  fill :: real
  status :: string

record truck =
  truck_lat :: "real option"
  truck_lon :: "real option"
  timestamp :: "string option"

record evaluation =
  optimal_distance :: real
  random_distance :: real
  optimal_fuel :: real
  optimal_cost :: int
  savings :: int
  efficiency_gain :: int
  route :: "(string \<times> string) list"

datatype response =
  ErrorResponse string nat
| NoBinsResponse string int "(string \<times> string) list"
| Evaluation evaluation

definition bins_to_collect :: "(string \<times> dustbin) list \<Rightarrow> bin list" where
  "bins_to_collect dustbins =
     map (\<lambda>(bid, b). \<lparr>bin_id = bid, bin_name = name b, bin_lat = lat b, bin_lon = lon b,
                       bin_fill = fill b\<rparr>)
       (filter (\<lambda>(bid, b). 50 \<le> fill b) dustbins)"

text \<open>The \<^verbatim>\<open>for i in range(len(random_bins) - 1)\<close> loop and the guard around it.\<close>

fun random_distance_loop :: "bin list \<Rightarrow> nat list \<Rightarrow> real \<Rightarrow> py_error + real" where
  "random_distance_loop random_bins [] acc = Inr acc"
| "random_distance_loop random_bins (i # rest) acc =
     (case calculate_distance (bin_lat (random_bins ! i)) (bin_lon (random_bins ! i))
             (bin_lat (random_bins ! (i + 1))) (bin_lon (random_bins ! (i + 1))) of
        Inl e \<Rightarrow> Inl e
      | Inr d \<Rightarrow> random_distance_loop random_bins rest (acc + d))"

definition baseline_distance :: "bin list \<Rightarrow> py_error + real" where
  "baseline_distance random_bins =
     (if 1 < length random_bins
      then random_distance_loop random_bins [0 ..< length random_bins - 1] 0
      else Inr 0)"

text \<open>The derived figures before rounding: the locals \<^verbatim>\<open>optimal_fuel\<close>,
  \<^verbatim>\<open>fuel_cost\<close>, \<^verbatim>\<open>savings\<close> and \<^verbatim>\<open>efficiency\<close>.\<close>

record metrics =
  optimal_fuel_v :: real
  fuel_cost_v :: real
  savings_v :: real
  efficiency_v :: real

definition derive_metrics :: "real \<Rightarrow> real \<Rightarrow> metrics" where
  "derive_metrics optimal_dist random_dist =
     (let fuel = optimal_dist / 12;
          cost = fuel * 100;
          sav = (if 0 < random_dist then (random_dist / 12 - fuel) * 100 else 0);
          eff = (if 0 < random_dist then (random_dist - optimal_dist) / random_dist * 100 else 0)
      in \<lparr>optimal_fuel_v = fuel, fuel_cost_v = cost, savings_v = sav, efficiency_v = eff\<rparr>)"

definition gps_missing :: string where
  "gps_missing = ''Truck GPS not received yet. Open /gps on your phone and press Start Tracking.''"

definition optimize_route :: "(bin list \<Rightarrow> bin list) \<Rightarrow> truck \<Rightarrow> (string \<times> dustbin) list \<Rightarrow> response" where
  "optimize_route shuffle truck dustbins =
     (if truck_lat truck = None \<or> truck_lon truck = None then ErrorResponse gps_missing 400
      else
        let to_collect = bins_to_collect dustbins in
        if to_collect = [] then NoBinsResponse ''No bins need collection'' 0 []
        else
          case optimize_route_tsp (the (truck_lat truck), the (truck_lon truck)) to_collect of
            Inl (ValueError msg) \<Rightarrow> ErrorResponse msg 500
          | Inr (optimal_route, optimal_dist) \<Rightarrow>
              (case baseline_distance (shuffle to_collect) of
                 Inl (ValueError msg) \<Rightarrow> ErrorResponse msg 500
               | Inr random_dist \<Rightarrow>
                   let m = derive_metrics optimal_dist random_dist
                   in Evaluation
                        \<lparr>optimal_distance = py_round2 optimal_dist,
                         random_distance = py_round2 random_dist,
                         optimal_fuel = py_round2 (optimal_fuel_v m),
                         optimal_cost = py_round (fuel_cost_v m),
                         savings = py_round (savings_v m),
                         efficiency_gain = py_round (efficiency_v m),
                         route = map (\<lambda>b. (bin_id b, bin_name b)) optimal_route\<rparr>))"

subsection \<open>Example inputs\<close>

text \<open>Bins on the meridian of longitude 0, at latitudes 1 and 2, and a truck at (0, 0).\<close>

definition bin_near :: bin where
  "bin_near = \<lparr>bin_id = ''1'', bin_name = ''Near'', bin_lat = 1, bin_lon = 0, bin_fill = 80\<rparr>"

definition bin_far :: bin where
  "bin_far = \<lparr>bin_id = ''2'', bin_name = ''Far'', bin_lat = 2, bin_lon = 0, bin_fill = 60\<rparr>"

text \<open>The registries: the truck before any GPS update (its initial value in the source)
  and at (0, 0); dustbins of which one or two are at least half full.\<close>

definition truck_unset :: truck where
  "truck_unset = \<lparr>truck_lat = None, truck_lon = None, timestamp = None\<rparr>"

definition truck_origin :: truck where
  "truck_origin = \<lparr>truck_lat = Some 0, truck_lon = Some 0, timestamp = Some ''2025-01-01T00:00:00''\<rparr>"

definition dustbins_one :: "(string \<times> dustbin) list" where
  "dustbins_one =
     [(''1'', \<lparr>name = ''Near'', location = ''North road'', lat = 1, lon = 0, fill = 80,
              status = ''FULL''\<rparr>),
      (''4'', \<lparr>name = ''Empty'', location = ''Depot'', lat = 3, lon = 0, fill = 10,
              status = ''EMPTY''\<rparr>)]"

definition dustbins_two :: "(string \<times> dustbin) list" where
  "dustbins_two =
     [(''1'', \<lparr>name = ''Near'', location = ''North road'', lat = 1, lon = 0, fill = 80,
              status = ''FULL''\<rparr>),
      (''4'', \<lparr>name = ''Empty'', location = ''Depot'', lat = 3, lon = 0, fill = 10,
              status = ''EMPTY''\<rparr>),
      (''2'', \<lparr>name = ''Far'', location = ''North road'', lat = 2, lon = 0, fill = 60,
              status = ''MEDIUM''\<rparr>)]"



definition truck_close :: truck where
  "truck_close = \<lparr>truck_lat = Some 0.99999, truck_lon = Some 0, timestamp = Some ''2025-01-01T00:00:00''\<rparr>"

text \<open>
  A truck at (5, 0) between two bins one degree away on either side, and the doubles of
  a run in double precision on them: the three distances that the run computes, as the
  exact values of the doubles, and the one addition that rounds. Elsewhere \<open>cd_doubles\<close>
  and \<open>add_doubles\<close> are the exact operations.
\<close>

definition bin_4 :: bin where
  "bin_4 = \<lparr>bin_id = ''4'', bin_name = ''South'', bin_lat = 4, bin_lon = 0, bin_fill = 70\<rparr>"

definition bin_6 :: bin where
  "bin_6 = \<lparr>bin_id = ''6'', bin_name = ''North'', bin_lat = 6, bin_lon = 0, bin_fill = 70\<rparr>"

definition cd_doubles :: distance_fn where
  "cd_doubles lat1 lon1 lat2 lon2 =
     (if (lat1, lon1, lat2, lon2) = (5, 0, 6, 0) then Inr (7824647346905073 / 2 ^ 46)
      else if (lat1, lon1, lat2, lon2) = (5, 0, 4, 0) then Inr (7824647346905067 / 2 ^ 46)
      else if (lat1, lon1, lat2, lon2) = (4, 0, 6, 0) then Inr (3912323673452535 / 2 ^ 44)
      else calculate_distance lat1 lon1 lat2 lon2)"

definition add_doubles :: "real \<Rightarrow> real \<Rightarrow> real" where
  "add_doubles x y =
     (if (x, y) = (7824647346905067 / 2 ^ 46, 3912323673452535 / 2 ^ 44)
      then 2934242755089401 / 2 ^ 43
      else x + y)"

section \<open>Properties of the distance in exact arithmetic\<close>

lemma hav_alt:
  "hav a b = (sin ((math_radians (fst b) - math_radians (fst a)) / 2))\<^sup>2
     + cos (math_radians (fst a)) * cos (math_radians (fst b))
       * (sin ((math_radians (snd b) - math_radians (snd a)) / 2))\<^sup>2"
  by (simp add: hav_def math_radians_def Let_def algebra_simps diff_divide_distrib)

lemma cos_prod_half:
  fixes p q :: real
  shows "cos p * cos q = (cos ((p + q) / 2))\<^sup>2 - (sin ((q - p) / 2))\<^sup>2"
proof -
  define u where "u = (p + q) / 2"
  define v where "v = (q - p) / 2"
  have p: "u - v = p" and q: "u + v = q"
    by (simp_all add: u_def v_def field_simps)
  have su: "(sin u)\<^sup>2 = 1 - (cos u)\<^sup>2"
    by (rule sin_squared_eq)
  have cv: "(cos v)\<^sup>2 = 1 - (sin v)\<^sup>2"
    by (rule cos_squared_eq)
  have "cos (u - v) * cos (u + v) = (cos u * cos v)\<^sup>2 - (sin u * sin v)\<^sup>2"
    by (simp only: cos_add cos_diff power2_eq_square) (simp only: algebra_simps)
  also have "\<dots> = (cos u)\<^sup>2 * (cos v)\<^sup>2 - (sin u)\<^sup>2 * (sin v)\<^sup>2"
    by (simp only: power_mult_distrib)
  also have "\<dots> = (cos u)\<^sup>2 - (sin v)\<^sup>2"
    by (simp only: su cv) (simp only: algebra_simps)
  finally have "cos (u - v) * cos (u + v) = (cos u)\<^sup>2 - (sin v)\<^sup>2" .
  then have "cos p * cos q = (cos u)\<^sup>2 - (sin v)\<^sup>2"
    by (simp only: p q)
  then show ?thesis by (simp only: u_def v_def)
qed

lemma hav_convex:
  "hav a b =
     (1 - (sin ((math_radians (snd b) - math_radians (snd a)) / 2))\<^sup>2)
        * (sin ((math_radians (fst b) - math_radians (fst a)) / 2))\<^sup>2
     + (sin ((math_radians (snd b) - math_radians (snd a)) / 2))\<^sup>2
        * (cos ((math_radians (fst a) + math_radians (fst b)) / 2))\<^sup>2"
  unfolding hav_alt cos_prod_half by (simp add: algebra_simps)

lemma sin2_bounds: "0 \<le> (sin (x::real))\<^sup>2" "(sin (x::real))\<^sup>2 \<le> 1"
  by (simp_all add: abs_square_le_1)

lemma cos2_bounds: "0 \<le> (cos (x::real))\<^sup>2" "(cos (x::real))\<^sup>2 \<le> 1"
  by (simp_all add: abs_square_le_1)

lemma convex_unit:
  fixes s x y :: real
  assumes "0 \<le> s" "s \<le> 1" "0 \<le> x" "x \<le> 1" "0 \<le> y" "y \<le> 1"
  shows "0 \<le> (1 - s) * x + s * y" "(1 - s) * x + s * y \<le> 1"
proof -
  show "0 \<le> (1 - s) * x + s * y" using assms by simp
  have "(1 - s) * x \<le> (1 - s) * 1" "s * y \<le> s * 1"
    using assms by (simp_all only: mult_left_mono diff_ge_0_iff_ge)
  then show "(1 - s) * x + s * y \<le> 1" by simp
qed

lemma hav_ge_0: "0 \<le> hav a b"
  unfolding hav_convex by (rule convex_unit(1)) (rule sin2_bounds cos2_bounds)+

lemma hav_le_1: "hav a b \<le> 1"
  unfolding hav_convex by (rule convex_unit(2)) (rule sin2_bounds cos2_bounds)+

lemma calculate_distance_eq:
  "calculate_distance lat1 lon1 lat2 lon2 = Inr (distance (lat1, lon1) (lat2, lon2))"
proof -
  have a: "(sin ((math_radians lat2 - math_radians lat1) / 2))\<^sup>2
      + cos (math_radians lat1) * cos (math_radians lat2)
        * (sin ((math_radians lon2 - math_radians lon1) / 2))\<^sup>2 = hav (lat1, lon1) (lat2, lon2)"
    by (simp add: hav_alt)
  show ?thesis
    using hav_ge_0 [of "(lat1, lon1)" "(lat2, lon2)"] hav_le_1 [of "(lat1, lon1)" "(lat2, lon2)"]
    by (simp add: calculate_distance_def Let_def a math_sqrt_def distance_def)
qed

lemma math_atan2_nonneg: "0 \<le> y \<Longrightarrow> 0 \<le> x \<Longrightarrow> 0 \<le> math_atan2 y x"
  by (simp add: math_atan2_def zero_le_arctan_iff)

lemma distance_nonneg: "0 \<le> distance a b"
  unfolding distance_def
  using math_atan2_nonneg [of "sqrt (hav a b)" "sqrt (1 - hav a b)"] hav_ge_0 [of a b] hav_le_1 [of a b]
  by simp

text \<open>In exact arithmetic the distance is symmetric, and 0 from a point to itself.\<close>

lemma sin_half_neg: "(sin ((x - y) / 2))\<^sup>2 = (sin (((y::real) - x) / 2))\<^sup>2"
proof -
  have "(x - y) / 2 = - ((y - x) / 2)" by (simp add: field_simps)
  then show ?thesis by (simp only: sin_minus power2_minus)
qed

lemma hav_sym: "hav a b = hav b a"
  unfolding hav_alt
  by (simp only: sin_half_neg [of "math_radians (fst b)"] sin_half_neg [of "math_radians (snd b)"] mult.commute [of "cos (math_radians (fst a))"])

lemma distance_sym: "distance a b = distance b a"
  by (simp only: distance_def hav_sym [of a b])

lemma hav_self: "hav a a = 0"
  by (simp add: hav_alt)

lemma distance_self: "distance a a = 0"
  by (simp add: distance_def hav_self math_atan2_def)

lemma atan2_sin_cos:
  assumes "0 \<le> x" "x \<le> pi / 2"
  shows "math_atan2 (sin x) (cos x) = x"
proof (cases "x = pi / 2")
  case True
  have "math_atan2 1 0 = pi / 2" by (simp add: math_atan2_def)
  then show ?thesis by (simp only: True sin_pi_half cos_pi_half)
next
  case False
  with assms have lt: "x < pi / 2" by simp
  with assms have c: "0 < cos x" by (intro cos_gt_zero_pi) simp_all
  have "arctan (tan x) = x" using assms lt by (intro arctan_tan) simp_all
  with c show ?thesis by (simp add: math_atan2_def tan_def)
qed

lemma math_radians_diff: "math_radians x - math_radians y = math_radians (x - y)"
  by (simp add: math_radians_def algebra_simps)

lemma distance_meridian:
  assumes "\<bar>la' - la\<bar> \<le> 180"
  shows "distance (la, lo) (la', lo) = 6371 * math_radians \<bar>la' - la\<bar>"
proof -
  define x where "x = math_radians \<bar>la' - la\<bar> / 2"
  have x0: "0 \<le> x" by (simp add: x_def math_radians_def)
  have "\<bar>la' - la\<bar> * (pi / 180) \<le> 180 * (pi / 180)"
    using assms by (intro mult_right_mono) simp_all
  then have x1: "x \<le> pi / 2" by (simp add: x_def math_radians_def)
  have neg: "math_radians (la' - la) = - math_radians (la - la')"
    by (simp add: math_radians_def field_simps)
  have arg: "(math_radians la' - math_radians la) / 2 = (if la \<le> la' then x else - x)"
    by (simp add: x_def math_radians_diff neg)
  have h: "hav (la, lo) (la', lo) = (sin x)\<^sup>2"
    by (simp add: hav_alt arg)
  have s: "0 \<le> sin x" using x0 x1 pi_ge_zero by (intro sin_ge_zero) linarith+
  have c: "0 \<le> cos x" using x0 x1 by (intro cos_ge_zero) linarith+
  have "1 - (sin x)\<^sup>2 = (cos x)\<^sup>2" by (simp add: cos_squared_eq)
  then have "distance (la, lo) (la', lo) = 2 * 6371 * math_atan2 (sin x) (cos x)"
    using s c by (simp add: distance_def h)
  also have "\<dots> = 2 * 6371 * x" by (simp only: atan2_sin_cos [OF x0 x1])
  finally show ?thesis by (simp add: x_def)
qed

text \<open>In exact arithmetic the distance is total and non-negative.\<close>

lemma calculate_distance_exact:
  "\<exists>d. calculate_distance lat1 lon1 lat2 lon2 = Inr d \<and> 0 \<le> d"
  by (simp add: calculate_distance_eq distance_nonneg)


section \<open>Properties of the solver\<close>

subsection \<open>In exact arithmetic\<close>

lemma arg_min_list_Cons:
  "xs \<noteq> [] \<Longrightarrow>
   arg_min_list f (x # xs) = (let m = arg_min_list f xs in if f x \<le> f m then x else m)"
  by (cases xs) simp_all

lemma min_scan_total:
  "min_scan (\<lambda>x. Inr (g x)) b (g b) xs = Inr (arg_min_list g (b # xs))"
proof (induction xs arbitrary: b)
  case Nil
  show ?case by simp
next
  case (Cons x xs)
  show ?case
  proof (cases "xs = []")
    case True
    then show ?thesis by (auto simp: Let_def)
  next
    case False
    define m where "m = arg_min_list g xs"
    have mx: "arg_min_list g (x # xs) = (if g x \<le> g m then x else m)"
      using False by (simp add: arg_min_list_Cons m_def Let_def)
    have mb: "arg_min_list g (b # xs) = (if g b \<le> g m then b else m)"
      using False by (simp add: arg_min_list_Cons m_def Let_def)
    have mbx: "arg_min_list g (b # x # xs) =
        (if g b \<le> g (arg_min_list g (x # xs)) then b else arg_min_list g (x # xs))"
      by (simp add: Let_def)
    show ?thesis
      by (simp only: min_scan.simps sum.case Cons.IH mbx) (auto simp: mx mb)
  qed
qed

lemma py_min_total:
  "xs \<noteq> [] \<Longrightarrow> py_min xs (\<lambda>x. Inr (g x)) = Inr (arg_min_list g xs)"
  by (cases xs) (simp_all add: py_min_def min_scan_total)

lemma consecutive_sum_Cons: "consecutive_sum (w # ws) = legs_from (bin_pos w) ws"
  by (induction ws arbitrary: w) simp_all

lemma legs_from_route_total: "legs_from start order = route_total start order"
  by (cases order) (simp_all add: route_total_def consecutive_sum_Cons)

lemma nearest_key:
  "(\<lambda>b. calculate_distance (fst current) (snd current) (bin_lat b) (bin_lon b))
     = (\<lambda>b. Inr (distance current (bin_pos b)))"
  by (simp add: calculate_distance_eq bin_pos_def)

lemma tsp_loop_Nil: "tsp_loop current [] acc tot = Inr (acc, tot)"
  by (subst tsp_loop.simps) simp

lemma tsp_loop_step:
  assumes "remaining \<noteq> []"
    and w_def: "w = arg_min_list (\<lambda>v. distance current (bin_pos v)) remaining"
  shows "tsp_loop current remaining acc tot =
           tsp_loop (bin_pos w) (remove1 w remaining) (acc @ [w])
             (tot + distance current (bin_pos w))"
proof -
  have mem: "w \<in> set remaining"
    unfolding w_def using assms(1) by (rule arg_min_list_in)
  have pm: "py_min remaining (\<lambda>b. Inr (distance current (bin_pos b))) = Inr w"
    unfolding w_def using assms(1) by (rule py_min_total)
  have cd: "calculate_distance (fst current) (snd current) (bin_lat w) (bin_lon w)
      = Inr (distance current (bin_pos w))"
    by (simp add: calculate_distance_eq bin_pos_def)
  have rm: "list_remove remaining w = Inr (remove1 w remaining)"
    using mem by (simp add: list_remove_def)
  show ?thesis
    by (subst tsp_loop.simps) (simp add: assms(1) nearest_key pm cd rm, simp add: bin_pos_def)
qed

lemma greedy_order_Nil: "greedy_order current [] = []"
  by (subst greedy_order.simps) simp

lemma greedy_order_step:
  "remaining \<noteq> [] \<Longrightarrow>
   greedy_order current remaining =
     (let w = arg_min_list (\<lambda>v. distance current (bin_pos v)) remaining
      in w # greedy_order (bin_pos w) (remove1 w remaining))"
  by (subst greedy_order.simps) simp

lemma tsp_loop_greedy:
  "tsp_loop current remaining acc tot =
     Inr (acc @ greedy_order current remaining,
          tot + legs_from current (greedy_order current remaining))"
proof (induction current remaining arbitrary: acc tot rule: greedy_order.induct)
  case (1 current remaining)
  show ?case
  proof (cases "remaining = []")
    case True
    then show ?thesis by (simp add: tsp_loop_Nil greedy_order_Nil)
  next
    case False
    define w where "w = arg_min_list (\<lambda>v. distance current (bin_pos v)) remaining"
    have ih: "tsp_loop (bin_pos w) (remove1 w remaining) (acc @ [w]) (tot + distance current (bin_pos w))
        = Inr ((acc @ [w]) @ greedy_order (bin_pos w) (remove1 w remaining),
               (tot + distance current (bin_pos w))
                 + legs_from (bin_pos w) (greedy_order (bin_pos w) (remove1 w remaining)))"
      using False w_def by (rule "1.IH")
    have g: "greedy_order current remaining = w # greedy_order (bin_pos w) (remove1 w remaining)"
      using False by (simp add: greedy_order_step w_def Let_def)
    show ?thesis
      by (simp only: tsp_loop_step [OF False w_def] ih g) simp
  qed
qed

lemma optimize_route_tsp_greedy:
  "optimize_route_tsp start bins =
     Inr (greedy_order start bins, route_total start (greedy_order start bins))"
proof (cases "bins = []")
  case True
  then show ?thesis by (simp add: optimize_route_tsp_def greedy_order_Nil route_total_def)
next
  case False
  then show ?thesis
    by (simp add: optimize_route_tsp_def tsp_loop_greedy legs_from_route_total)
qed


lemma find_Min_arg_min_list:
  fixes g :: "'a \<Rightarrow> real"
  shows "xs \<noteq> [] \<Longrightarrow> find (\<lambda>w. g w = Min (g ` set xs)) xs = Some (arg_min_list g xs)"
proof (induction xs)
  case Nil
  then show ?case by simp
next
  case (Cons x xs)
  show ?case
  proof (cases "xs = []")
    case True
    then show ?thesis by simp
  next
    case False
    define m where "m = arg_min_list g xs"
    have gm: "g m = Min (g ` set xs)"
      unfolding m_def using False by (rule f_arg_min_list_f)
    have M: "Min (g ` set (x # xs)) = min (g x) (g m)"
      using False by (simp add: gm)
    have am: "arg_min_list g (x # xs) = (if g x \<le> g m then x else m)"
      using False by (simp add: arg_min_list_Cons m_def Let_def)
    show ?thesis
    proof (cases "g x \<le> g m")
      case True
      then show ?thesis by (simp only: M am) (simp add: min_def)
    next
      case le: False
      then have mm: "min (g x) (g m) = g m" "g x \<noteq> g m" by (simp_all add: min_def)
      have ih: "find (\<lambda>w. g w = g m) xs = Some m"
        unfolding gm unfolding m_def by (rule Cons.IH [OF False])
      show ?thesis
        using le by (simp only: M am mm) (simp add: mm ih)
    qed
  qed
qed

lemma example_distances:
  "distance (0, 0) (bin_pos bin_near) = 6371 * math_radians 1"
  "distance (0, 0) (bin_pos bin_far) = 6371 * math_radians 2"
  "distance (bin_pos bin_near) (bin_pos bin_far) = 6371 * math_radians 1"
  "distance (bin_pos bin_far) (bin_pos bin_near) = 6371 * math_radians 1"
  by (simp_all add: bin_pos_def bin_near_def bin_far_def distance_meridian)

lemma example_distinct: "bin_far \<noteq> bin_near" "bin_near \<noteq> bin_far"
  by (simp_all add: bin_near_def bin_far_def)

lemma math_radians_le: "math_radians x \<le> math_radians y \<longleftrightarrow> x \<le> y"
  by (simp add: math_radians_def)

lemma example_greedy:
  "greedy_order (0, 0) [bin_far, bin_near] = [bin_near, bin_far]"
  by (simp add: greedy_order_step greedy_order_Nil Let_def example_distances example_distinct
      math_radians_le)

lemma example_total:
  "route_total (0, 0) [bin_near, bin_far] = 6371 * math_radians 1 + 6371 * math_radians 1"
  by (simp add: route_total_def example_distances)

subsection \<open>The solver over the machine's arithmetic\<close>

lemma min_scan_returns:
  "min_scan key b kb xs = Inr m \<Longrightarrow> \<forall>x \<in> set xs. \<exists>v. key x = Inr v"
  by (induction xs arbitrary: b kb) (auto split: sum.splits if_splits)

lemma min_scan_cong_set:
  "(\<And>x. x \<in> set xs \<Longrightarrow> key x = key' x) \<Longrightarrow> min_scan key b kb xs = min_scan key' b kb xs"
  by (induction xs arbitrary: b kb) (auto split: sum.splits)

lemma py_min_returns:
  assumes "xs \<noteq> []" and "\<forall>x \<in> set xs. \<exists>v. key x = Inr v"
  shows "py_min xs key = Inr (arg_min_list (\<lambda>x. returned (key x)) xs)"
proof -
  from assms(1) obtain x rest where xs: "xs = x # rest" by (cases xs) auto
  have k: "key y = Inr (returned (key y))" if "y \<in> set xs" for y
  proof -
    from assms(2) that obtain v where "key y = Inr v" by auto
    then show ?thesis by (simp only: returned_def sum.case)
  qed
  from assms(2) obtain kx where kx: "key x = Inr kx" by (auto simp: xs)
  then have rk: "returned (key x) = kx" by (simp add: returned_def)
  have "min_scan key x kx rest = min_scan (\<lambda>y. Inr (returned (key y))) x kx rest"
  proof (rule min_scan_cong_set)
    fix y assume "y \<in> set rest"
    then have "y \<in> set xs" by (simp add: xs)
    then show "key y = Inr (returned (key y))" by (rule k)
  qed
  also have "\<dots> = Inr (arg_min_list (\<lambda>y. returned (key y)) (x # rest))"
    using min_scan_total [of "\<lambda>y. returned (key y)" x rest] by (simp only: rk)
  finally have "min_scan key x kx rest = Inr (arg_min_list (\<lambda>y. returned (key y)) (x # rest))" .
  then show ?thesis by (simp add: py_min_def xs kx)
qed

lemma py_min_Inr:
  assumes "py_min xs key = Inr m"
  shows "xs \<noteq> []" and "\<forall>x \<in> set xs. \<exists>v. key x = Inr v"
    and "m = arg_min_list (\<lambda>x. returned (key x)) xs"
proof -
  show ne: "xs \<noteq> []" using assms by (auto simp: py_min_def)
  then obtain x rest where xs: "xs = x # rest" by (cases xs) auto
  from assms obtain kx where kx: "key x = Inr kx" and ms: "min_scan key x kx rest = Inr m"
    by (auto simp: py_min_def xs split: sum.splits)
  from ms have "\<forall>y \<in> set rest. \<exists>v. key y = Inr v" by (rule min_scan_returns)
  with kx show all: "\<forall>x \<in> set xs. \<exists>v. key x = Inr v" by (simp add: xs)
  from py_min_returns [OF ne all] assms show "m = arg_min_list (\<lambda>x. returned (key x)) xs"
    by simp
qed

lemma greedy_order_by_Nil: "greedy_order_by dv current [] = []"
  by (subst greedy_order_by.simps) simp

lemma greedy_order_by_step:
  "remaining \<noteq> [] \<Longrightarrow>
   greedy_order_by dv current remaining =
     (let w = arg_min_list (\<lambda>v. dv current (bin_pos v)) remaining
      in w # greedy_order_by dv (bin_pos w) (remove1 w remaining))"
  by (subst greedy_order_by.simps) simp

lemma dval_key:
  "returned (cd (fst current) (snd current) (bin_lat b) (bin_lon b)) = dval cd current (bin_pos b)"
  by (simp add: dval_def bin_pos_def)

lemma tsp_loop_fp_Nil: "tsp_loop_fp cd add current [] visited tot = Inr (visited, tot)"
  by (subst tsp_loop_fp.simps) simp

lemma tsp_loop_fp_Inr:
  assumes "tsp_loop_fp cd add current remaining visited tot = Inr r" and "remaining \<noteq> []"
  obtains nearest leg where
    "py_min remaining (\<lambda>b. cd (fst current) (snd current) (bin_lat b) (bin_lon b)) = Inr nearest"
    "cd (fst current) (snd current) (bin_lat nearest) (bin_lon nearest) = Inr leg"
    "nearest \<in> set remaining"
    "tsp_loop_fp cd add (bin_lat nearest, bin_lon nearest) (remove1 nearest remaining)
       (visited @ [nearest]) (add tot leg) = Inr r"
  using assms
  by (subst (asm) tsp_loop_fp.simps) (auto simp: list_remove_def split: sum.splits if_splits)

lemma tsp_loop_fp_result:
  "tsp_loop_fp cd add current remaining visited tot = Inr (order, t) \<Longrightarrow>
   order = visited @ greedy_order_by (dval cd) current remaining
   \<and> t = foldl add tot (legs (dval cd) current (greedy_order_by (dval cd) current remaining))"
proof (induction "length remaining" arbitrary: current remaining visited tot)
  case 0
  then show ?case by (simp add: tsp_loop_fp_Nil greedy_order_by_Nil)
next
  case (Suc n)
  then have ne: "remaining \<noteq> []" by auto
  from Suc.prems ne obtain nearest leg where
    pm: "py_min remaining (\<lambda>b. cd (fst current) (snd current) (bin_lat b) (bin_lon b)) = Inr nearest"
    and lg: "cd (fst current) (snd current) (bin_lat nearest) (bin_lon nearest) = Inr leg"
    and mem: "nearest \<in> set remaining"
    and rec: "tsp_loop_fp cd add (bin_lat nearest, bin_lon nearest) (remove1 nearest remaining)
       (visited @ [nearest]) (add tot leg) = Inr (order, t)"
    by (rule tsp_loop_fp_Inr)
  have w: "nearest = arg_min_list (\<lambda>v. dval cd current (bin_pos v)) remaining"
    using py_min_Inr(3) [OF pm] by (simp only: dval_key)
  have leg: "leg = dval cd current (bin_pos nearest)"
    using lg by (simp add: dval_def bin_pos_def returned_def)
  have len: "n = length (remove1 nearest remaining)"
    using Suc.hyps(2) mem by (simp add: length_remove1)
  have g: "greedy_order_by (dval cd) current remaining
      = nearest # greedy_order_by (dval cd) (bin_pos nearest) (remove1 nearest remaining)"
    using ne by (simp add: greedy_order_by_step Let_def w [symmetric])
  from Suc.hyps(1) [OF len rec]
  show ?case by (simp add: g leg bin_pos_def)
qed

lemma tsp_loop_fp_returns:
  assumes "\<forall>p \<in> insert current (bin_pos ` set remaining). \<forall>b \<in> set remaining.
      \<exists>v. cd (fst p) (snd p) (bin_lat b) (bin_lon b) = Inr v"
  shows "\<exists>r. tsp_loop_fp cd add current remaining visited tot = Inr r"
  using assms
proof (induction "length remaining" arbitrary: current remaining visited tot)
  case 0
  then show ?case by (simp add: tsp_loop_fp_Nil)
next
  case (Suc n)
  then have ne: "remaining \<noteq> []" by auto
  let ?key = "\<lambda>b. cd (fst current) (snd current) (bin_lat b) (bin_lon b)"
  define w where "w = arg_min_list (\<lambda>x. returned (?key x)) remaining"
  have keys: "\<forall>b \<in> set remaining. \<exists>v. ?key b = Inr v"
    using Suc.prems by simp
  have pm: "py_min remaining ?key = Inr w"
    unfolding w_def using ne keys by (rule py_min_returns)
  have mem: "w \<in> set remaining"
    unfolding w_def using ne by (rule arg_min_list_in)
  from keys mem obtain leg where lg: "?key w = Inr leg" by auto
  have len: "n = length (remove1 w remaining)"
    using Suc.hyps(2) mem by (simp add: length_remove1)
  have sub: "set (remove1 w remaining) \<subseteq> set remaining" by (rule set_remove1_subset)
  have "\<forall>p \<in> insert (bin_lat w, bin_lon w) (bin_pos ` set (remove1 w remaining)).
      \<forall>b \<in> set (remove1 w remaining). \<exists>v. cd (fst p) (snd p) (bin_lat b) (bin_lon b) = Inr v"
  proof (intro ballI)
    fix p b
    assume p: "p \<in> insert (bin_lat w, bin_lon w) (bin_pos ` set (remove1 w remaining))"
      and b: "b \<in> set (remove1 w remaining)"
    from p mem sub have "p \<in> bin_pos ` set remaining" by (auto simp: bin_pos_def)
    moreover from b sub have "b \<in> set remaining" by auto
    ultimately show "\<exists>v. cd (fst p) (snd p) (bin_lat b) (bin_lon b) = Inr v"
      using Suc.prems by blast
  qed
  from Suc.hyps(1) [OF len this]
  obtain r where "tsp_loop_fp cd add (bin_lat w, bin_lon w) (remove1 w remaining)
      (visited @ [w]) (add tot leg) = Inr r" by blast
  then have "tsp_loop_fp cd add current remaining visited tot = Inr r"
    using ne pm lg mem by (subst tsp_loop_fp.simps) (simp add: list_remove_def)
  then show ?case by blast
qed

lemma first_nearest_by_arg_min:
  assumes "pool \<noteq> []"
  shows "first_nearest_by dv current pool
           = Some (arg_min_list (\<lambda>v. dv current (bin_pos v)) pool)"
proof -
  let ?g = "\<lambda>v. dv current (bin_pos v)"
  have "find (\<lambda>w. \<forall>v \<in> set pool. ?g w \<le> ?g v) pool = find (\<lambda>w. ?g w = Min (?g ` set pool)) pool"
  proof (rule find_cong [OF refl])
    fix w assume w: "w \<in> set pool"
    show "(\<forall>v \<in> set pool. ?g w \<le> ?g v) = (?g w = Min (?g ` set pool))"
    proof
      assume "\<forall>v \<in> set pool. ?g w \<le> ?g v"
      then show "?g w = Min (?g ` set pool)"
        using w by (intro Min_eqI [symmetric]) auto
    next
      assume "?g w = Min (?g ` set pool)"
      then show "\<forall>v \<in> set pool. ?g w \<le> ?g v" by simp
    qed
  qed
  then show ?thesis
    using find_Min_arg_min_list [OF assms, of ?g] by (simp add: first_nearest_by_def)
qed

lemma first_nearest_by_Nil: "first_nearest_by dv current [] = None"
  by (simp add: first_nearest_by_def)

lemma follows_rule_iff:
  "follows_rule dv current pool order \<longleftrightarrow> order = greedy_order_by dv current pool"
proof (induction order arbitrary: current pool)
  case Nil
  show ?case
  proof (cases "pool = []")
    case True
    then show ?thesis by (simp add: greedy_order_by_Nil)
  next
    case False
    then show ?thesis by (simp add: greedy_order_by_step Let_def)
  qed
next
  case (Cons w rest)
  show ?case
  proof (cases "pool = []")
    case True
    then show ?thesis by (simp add: greedy_order_by_Nil first_nearest_by_Nil)
  next
    case False
    define m where "m = arg_min_list (\<lambda>v. dv current (bin_pos v)) pool"
    have fn: "first_nearest_by dv current pool = Some m"
      unfolding m_def using False by (rule first_nearest_by_arg_min)
    have g: "greedy_order_by dv current pool = m # greedy_order_by dv (bin_pos m) (remove1 m pool)"
      using False by (simp add: greedy_order_by_step Let_def m_def)
    show ?thesis
      by (auto simp: fn g Cons.IH)
  qed
qed

lemma tsp_loop_exact:
  "tsp_loop current remaining visited tot
     = tsp_loop_fp calculate_distance (+) current remaining visited tot"
proof (induction current remaining visited tot rule: tsp_loop.induct)
  case (1 current remaining visited tot)
  show ?case
  proof (cases "remaining = []")
    case True
    then show ?thesis by (simp add: tsp_loop_Nil tsp_loop_fp_Nil)
  next
    case False
    show ?thesis
      using "1.IH" False
      by (subst tsp_loop.simps, subst tsp_loop_fp.simps) (auto split: sum.splits)
  qed
qed

lemma optimize_route_tsp_exact:
  "optimize_route_tsp_fp calculate_distance (+) start bins = optimize_route_tsp start bins"
  by (simp add: optimize_route_tsp_fp_def optimize_route_tsp_def tsp_loop_exact)

lemma foldl_add_sum_list: "foldl (+) a xs = a + sum_list (xs :: real list)"
  by (induction xs arbitrary: a) simp_all

lemma running_total_exact: "running_total (+) dv start order = sum_list (legs dv start order)"
  by (simp add: running_total_def foldl_add_sum_list)

lemma example_doubles_run:
  "optimize_route_tsp_fp cd_doubles add_doubles (5, 0) [bin_6, bin_4]
     = Inr ([bin_4, bin_6], 2934242755089401 / 2 ^ 43)"
proof -
  have k6: "cd_doubles 5 0 (bin_lat bin_6) (bin_lon bin_6) = Inr (7824647346905073 / 2 ^ 46)"
    and k4: "cd_doubles 5 0 (bin_lat bin_4) (bin_lon bin_4) = Inr (7824647346905067 / 2 ^ 46)"
    and k46: "cd_doubles 4 0 (bin_lat bin_6) (bin_lon bin_6) = Inr (3912323673452535 / 2 ^ 44)"
    by (simp_all add: cd_doubles_def bin_4_def bin_6_def)
  have ne: "bin_6 \<noteq> bin_4" "bin_4 \<noteq> bin_6" by (simp_all add: bin_4_def bin_6_def)
  have p4: "(bin_lat bin_4, bin_lon bin_4) = (4, 0)" by (simp add: bin_4_def)
  have p6: "(bin_lat bin_6, bin_lon bin_6) = (6, 0)" by (simp add: bin_6_def)
  have m1: "py_min [bin_6, bin_4] (\<lambda>b. cd_doubles 5 0 (bin_lat b) (bin_lon b)) = Inr bin_4"
    by (simp add: py_min_def k6 k4)
  have m2: "py_min [bin_6] (\<lambda>b. cd_doubles 4 0 (bin_lat b) (bin_lon b)) = Inr bin_6"
    by (simp add: py_min_def k46)
  have s2: "tsp_loop_fp cd_doubles add_doubles (4, 0) [bin_6] [bin_4] (7824647346905067 / 2 ^ 46)
      = Inr ([bin_4, bin_6], 2934242755089401 / 2 ^ 43)"
    by (subst tsp_loop_fp.simps)
       (simp add: m2 k46 list_remove_def add_doubles_def tsp_loop_fp_Nil)
  have s1: "tsp_loop_fp cd_doubles add_doubles (5, 0) [bin_6, bin_4] [] 0
      = Inr ([bin_4, bin_6], 2934242755089401 / 2 ^ 43)"
    using s2
    by (subst tsp_loop_fp.simps)
       (simp add: m1 k4 list_remove_def add_doubles_def ne p4)
  then show ?thesis by (simp add: optimize_route_tsp_fp_def)
qed

lemma example_tie_run:
  "optimize_route_tsp_fp calculate_distance (+) (0, 0) [bin_near\<lparr>bin_id := ''3''\<rparr>, bin_near]
     = Inr ([bin_near\<lparr>bin_id := ''3''\<rparr>, bin_near], 6371 * math_radians 1)"
proof -
  let ?c = "bin_near\<lparr>bin_id := ''3''\<rparr>"
  have p: "bin_pos ?c = bin_pos bin_near" by (simp add: bin_pos_def)
  have ne: "bin_near \<noteq> ?c" "?c \<noteq> bin_near" by (simp_all add: bin_near_def)
  have g: "greedy_order (0, 0) [?c, bin_near] = [?c, bin_near]"
    by (simp add: greedy_order_step greedy_order_Nil Let_def p ne)
  have t: "route_total (0, 0) [?c, bin_near] = 6371 * math_radians 1"
    by (simp add: route_total_def p example_distances distance_self)
  show ?thesis
    by (simp only: optimize_route_tsp_exact optimize_route_tsp_greedy g t)
qed

section \<open>Properties of the route evaluator\<close>

lemma random_distance_loop_sum:
  "random_distance_loop random_bins idxs acc =
     Inr (acc + (\<Sum>i\<leftarrow>idxs. distance (bin_pos (random_bins ! i)) (bin_pos (random_bins ! (i + 1)))))"
  by (induction idxs arbitrary: acc) (simp_all add: calculate_distance_eq bin_pos_def)

lemma consecutive_sum_index:
  "(\<Sum>i\<leftarrow>[0 ..< length xs - 1]. distance (bin_pos (xs ! i)) (bin_pos (xs ! (i + 1))))
     = consecutive_sum xs"
proof (induction xs rule: consecutive_sum.induct)
  case (1 x y zs)
  have idx: "[0 ..< length (x # y # zs) - 1] = 0 # map Suc [0 ..< length (y # zs) - 1]"
    by (simp add: upt_conv_Cons map_Suc_upt del: upt_Suc)
  show ?case
    unfolding idx using "1.IH" by (simp add: o_def del: upt_Suc)
qed simp_all

lemma baseline_distance_eq: "baseline_distance random_bins = Inr (consecutive_sum random_bins)"
proof (cases "1 < length random_bins")
  case True
  then show ?thesis
    by (simp only: baseline_distance_def random_distance_loop_sum consecutive_sum_index if_True) simp
next
  case False
  then have "random_bins = [] \<or> (\<exists>x. random_bins = [x])"
    by (cases random_bins) (auto simp: length_Suc_conv)
  then show ?thesis using False by (auto simp: baseline_distance_def)
qed

lemma optimize_route_eval:
  assumes "truck_lat t = Some la" "truck_lon t = Some lo" "bins_to_collect ds \<noteq> []"
  shows "optimize_route sh t ds =
    (let to_collect = bins_to_collect ds;
         order = greedy_order (la, lo) to_collect;
         m = derive_metrics (route_total (la, lo) order) (consecutive_sum (sh to_collect))
     in Evaluation
          \<lparr>optimal_distance = py_round2 (route_total (la, lo) order),
           random_distance = py_round2 (consecutive_sum (sh to_collect)),
           optimal_fuel = py_round2 (optimal_fuel_v m),
           optimal_cost = py_round (fuel_cost_v m),
           savings = py_round (savings_v m),
           efficiency_gain = py_round (efficiency_v m),
           route = map (\<lambda>b. (bin_id b, bin_name b)) order\<rparr>)"
  using assms
  by (simp add: optimize_route_def Let_def optimize_route_tsp_greedy baseline_distance_eq)


lemma py_round_lower: "x - 1 / 2 \<le> of_int (py_round x)"
  unfolding py_round_def Let_def by (auto; linarith)

lemma py_round_upper: "of_int (py_round x) \<le> x + 1 / 2"
  unfolding py_round_def Let_def by (auto; linarith)

lemma py_round_small: "\<bar>x\<bar> < 1 / 2 \<Longrightarrow> py_round x = 0"
proof -
  assume a: "\<bar>x\<bar> < 1 / 2"
  have "(of_int (py_round x) :: real) < 1" "- 1 < (of_int (py_round x) :: real)"
    using py_round_lower [of x] py_round_upper [of x] a by linarith+
  then have "py_round x < 1" "- 1 < py_round x" by linarith+
  then show ?thesis by simp
qed

lemma py_round_nonpos: "x \<le> 0 \<Longrightarrow> py_round x \<le> 0"
proof -
  assume "x \<le> 0"
  then have "(of_int (py_round x) :: real) < 1"
    using py_round_upper [of x] by linarith
  then have "py_round x < 1" by linarith
  then show ?thesis by simp
qed


lemma example_bins:
  "bins_to_collect dustbins_one = [bin_near]"
  "bins_to_collect dustbins_two = [bin_near, bin_far]"
  by (simp_all add: bins_to_collect_def dustbins_one_def dustbins_two_def bin_near_def bin_far_def)

lemma example_truck:
  "truck_lat truck_origin = Some 0" "truck_lon truck_origin = Some 0"
  "truck_lat truck_unset = None" "truck_lon truck_unset = None"
  by (simp_all add: truck_origin_def truck_unset_def)

lemma example_baseline:
  "consecutive_sum [bin_far, bin_near] = 6371 * math_radians 1"
  "consecutive_sum [bin_near, bin_far] = 6371 * math_radians 1"
  "consecutive_sum [bin_near] = 0"
  by (simp_all add: example_distances)

lemma mset_pair: "mset xs = mset [a, b] \<Longrightarrow> xs = [a, b] \<or> xs = [b, a]"
proof -
  assume m: "mset xs = mset [a, b]"
  then have "length xs = 2" by (metis length_Cons list.size(3) mset_eq_length numeral_2_eq_2)
  then obtain x y where xs: "xs = [x, y]"
    by (auto simp: length_Suc_conv numeral_2_eq_2)
  with m have "{#x, y#} = {#a, b#}" by simp
  then have "(x = a \<and> y = b) \<or> (x = b \<and> y = a)"
    by (auto simp: add_eq_conv_diff split: if_splits)
  with xs show ?thesis by auto
qed

lemma optimize_route_Evaluation:
  assumes "optimize_route sh t ds = Evaluation ev"
  shows "\<exists>la lo. truck_lat t = Some la \<and> truck_lon t = Some lo \<and> bins_to_collect ds \<noteq> []"
proof -
  have "truck_lat t \<noteq> None" "truck_lon t \<noteq> None"
    using assms by (auto simp: optimize_route_def split: if_splits)
  moreover have "bins_to_collect ds \<noteq> []"
    using assms by (auto simp: optimize_route_def Let_def split: if_splits)
  ultimately show ?thesis by auto
qed






lemma two_bins_total:
  "route_total s (greedy_order s [a, b])
     = min (distance s (bin_pos a)) (distance s (bin_pos b)) + distance (bin_pos a) (bin_pos b)"
proof (cases "distance s (bin_pos a) \<le> distance s (bin_pos b)")
  case True
  then have "greedy_order s [a, b] = [a, b]"
    by (simp add: greedy_order_step greedy_order_Nil Let_def)
  with True show ?thesis by (simp add: route_total_def min_def)
next
  case False
  then have "a \<noteq> b" by auto
  with False have "greedy_order s [a, b] = [b, a]"
    by (simp add: greedy_order_step greedy_order_Nil Let_def)
  with False show ?thesis
    by (simp add: route_total_def min_def distance_sym [of "bin_pos b" "bin_pos a"])
qed

lemma two_bins_baseline:
  assumes "mset xs = mset [a, b]"
  shows "consecutive_sum xs = distance (bin_pos a) (bin_pos b)"
proof -
  from assms have "xs = [a, b] \<or> xs = [b, a]" by (rule mset_pair)
  then show ?thesis
    by (auto simp: distance_sym [of "bin_pos b" "bin_pos a"])
qed

lemma metrics_nonpos:
  assumes "rd \<le> od"
  shows "efficiency_v (derive_metrics od rd) \<le> 0" "savings_v (derive_metrics od rd) \<le> 0"
proof -
  show "efficiency_v (derive_metrics od rd) \<le> 0"
  proof (cases "0 < rd")
    case True
    have eq: "efficiency_v (derive_metrics od rd) = (rd - od) / rd * 100"
      using True by (simp add: derive_metrics_def Let_def)
    have "(rd - od) / rd \<le> 0" using assms True by (simp add: divide_nonpos_pos)
    then have "(rd - od) / rd * 100 \<le> 0" by (rule mult_nonpos_nonneg) simp
    then show ?thesis by (simp only: eq)
  next
    case False
    then show ?thesis by (simp add: derive_metrics_def Let_def)
  qed
  show "savings_v (derive_metrics od rd) \<le> 0"
    using assms by (simp add: derive_metrics_def Let_def)
qed

lemma example_close_truck:
  "truck_lat truck_close = Some 0.99999" "truck_lon truck_close = Some 0"
  by (simp_all add: truck_close_def)

lemma example_close_distances:
  "distance (0.99999, 0) (bin_pos bin_near) = 6371 * math_radians 0.00001"
  "distance (0.99999, 0) (bin_pos bin_far) = 6371 * math_radians 1.00001"
proof -
  have "distance (0.99999, 0) (1, 0) = 6371 * math_radians \<bar>1 - 0.99999\<bar>"
    by (rule distance_meridian) simp
  then have "distance (0.99999, 0) (1, 0) = 6371 * math_radians 0.00001" by simp
  then show "distance (0.99999, 0) (bin_pos bin_near) = 6371 * math_radians 0.00001"
    by (simp add: bin_pos_def bin_near_def)
  have "distance (0.99999, 0) (2, 0) = 6371 * math_radians \<bar>2 - 0.99999\<bar>"
    by (rule distance_meridian) simp
  then have "distance (0.99999, 0) (2, 0) = 6371 * math_radians 1.00001" by simp
  then show "distance (0.99999, 0) (bin_pos bin_far) = 6371 * math_radians 1.00001"
    by (simp add: bin_pos_def bin_far_def)
qed

lemma example_close_order:
  "0 < distance (0.99999, 0) (bin_pos bin_near)"
  "distance (0.99999, 0) (bin_pos bin_near) < distance (0.99999, 0) (bin_pos bin_far)"
  by (simp_all only: example_close_distances) (simp_all add: math_radians_def)

lemma example_close_greedy:
  "greedy_order (0.99999, 0) [bin_near, bin_far] = [bin_near, bin_far]"
  using example_close_order(2)
  by (simp add: greedy_order_step greedy_order_Nil Let_def)

lemma example_close_total:
  "route_total (0.99999, 0) [bin_near, bin_far]
     = 6371 * math_radians 0.00001 + 6371 * math_radians 1"
proof -
  have "route_total (0.99999, 0) [bin_near, bin_far]
      = distance (0.99999, 0) (bin_pos bin_near) + distance (bin_pos bin_near) (bin_pos bin_far)"
    by (simp add: route_total_def)
  then show ?thesis by (simp only: example_close_distances example_distances)
qed

lemma example_close_metrics:
  "py_round (efficiency_v (derive_metrics (6371 * math_radians 0.00001 + 6371 * math_radians 1)
       (6371 * math_radians 1))) = 0"
  "py_round (savings_v (derive_metrics (6371 * math_radians 0.00001 + 6371 * math_radians 1)
       (6371 * math_radians 1))) = 0"
proof -
  define d0 where "d0 = 6371 * math_radians 0.00001"
  define rd where "rd = 6371 * math_radians 1"
  have d0: "d0 = 6371 / 18000000 * pi" and rd: "rd = 6371 / 180 * pi"
    by (simp_all add: d0_def rd_def math_radians_def)
  have d0b: "0 < d0" "d0 < 1 / 100"
    using pi_gt_zero pi_less_4 unfolding d0 by simp_all
  have rdb: "0 < rd" unfolding rd using pi_gt_zero by simp
  have "efficiency_v (derive_metrics (d0 + rd) rd) = - (d0 / rd) * 100"
    using rdb by (simp add: derive_metrics_def Let_def)
  also have "d0 / rd = 1 / 100000"
    unfolding d0 rd using pi_gt_zero by simp
  finally have e: "efficiency_v (derive_metrics (d0 + rd) rd) = - (1 / 1000)" by simp
  have s: "savings_v (derive_metrics (d0 + rd) rd) = - (d0 * 25 / 3)"
    using rdb by (simp add: derive_metrics_def Let_def field_simps)
  have "\<bar>- (d0 * 25 / 3)\<bar> < 1 / 2" using d0b by simp
  then have "py_round (savings_v (derive_metrics (d0 + rd) rd)) = 0"
    unfolding s by (rule py_round_small)
  moreover have "py_round (efficiency_v (derive_metrics (d0 + rd) rd)) = 0"
    unfolding e by (rule py_round_small) simp
  ultimately show
    "py_round (efficiency_v (derive_metrics (6371 * math_radians 0.00001 + 6371 * math_radians 1)
       (6371 * math_radians 1))) = 0"
    "py_round (savings_v (derive_metrics (6371 * math_radians 0.00001 + 6371 * math_radians 1)
       (6371 * math_radians 1))) = 0"
    unfolding d0_def rd_def by simp_all
qed

section \<open>Claims about the distance\<close>


section \<open>Claims about the solver\<close>

text \<open>
  C1. Whatever the machine's arithmetic is: whenever the solver returns, its order is the
  reference greedy nearest-neighbour order for the distances as they are computed (from
  the start, repeatedly the remaining waypoint at minimum distance from the current
  position), and its total is the running total of the legs of that order, the leg from
  the start to the first waypoint and then the consecutive pairs, added in visiting
  order. The solver returns whenever the distance computation returns on the pairs of
  the input. On the empty list it returns the empty order and total 0, not an error.
  With exact addition the running total is the sum of the legs.
\<close>

theorem optimize_route_tsp_fp_is_greedy:
  "(optimize_route_tsp_fp cd add start bins = Inr (order, tot) \<longrightarrow>
      order = greedy_order_by (dval cd) start bins
      \<and> tot = running_total add (dval cd) start order)
   \<and> ((\<forall>p \<in> set (start # map bin_pos bins). \<forall>b \<in> set bins.
          \<exists>v. cd (fst p) (snd p) (bin_lat b) (bin_lon b) = Inr v) \<longrightarrow>
        (\<exists>order' tot'. optimize_route_tsp_fp cd add start bins = Inr (order', tot')))
   \<and> optimize_route_tsp_fp cd add start [] = Inr ([], 0)
   \<and> running_total (+) dv start order = sum_list (legs dv start order)"
proof (intro conjI impI)
  assume r: "optimize_route_tsp_fp cd add start bins = Inr (order, tot)"
  show "order = greedy_order_by (dval cd) start bins"
  proof (cases "bins = []")
    case True
    with r show ?thesis by (simp add: optimize_route_tsp_fp_def greedy_order_by_Nil)
  next
    case False
    with r have "tsp_loop_fp cd add start bins [] 0 = Inr (order, tot)"
      by (simp add: optimize_route_tsp_fp_def)
    from tsp_loop_fp_result [OF this] show ?thesis by simp
  qed
  then have o: "greedy_order_by (dval cd) start bins = order" by simp
  show "tot = running_total add (dval cd) start order"
  proof (cases "bins = []")
    case True
    with r show ?thesis
      by (simp add: optimize_route_tsp_fp_def running_total_def)
  next
    case False
    with r have "tsp_loop_fp cd add start bins [] 0 = Inr (order, tot)"
      by (simp add: optimize_route_tsp_fp_def)
    from tsp_loop_fp_result [OF this] show ?thesis
      by (simp add: running_total_def o)
  qed
next
  assume h: "\<forall>p \<in> set (start # map bin_pos bins). \<forall>b \<in> set bins.
      \<exists>v. cd (fst p) (snd p) (bin_lat b) (bin_lon b) = Inr v"
  then have "\<forall>p \<in> insert start (bin_pos ` set bins). \<forall>b \<in> set bins.
      \<exists>v. cd (fst p) (snd p) (bin_lat b) (bin_lon b) = Inr v"
    by simp
  from tsp_loop_fp_returns [OF this, of add "[]" 0]
  show "\<exists>order' tot'. optimize_route_tsp_fp cd add start bins = Inr (order', tot')"
    by (auto simp: optimize_route_tsp_fp_def)
next
  show "optimize_route_tsp_fp cd add start [] = Inr ([], 0)"
    by (simp add: optimize_route_tsp_fp_def)
  show "running_total (+) dv start order = sum_list (legs dv start order)"
    by (rule running_total_exact)
qed

text \<open>
  In exact arithmetic, for the truck at (0, 0) and the bins at latitudes 2 and 1 handed
  over in this order, the solver visits the nearer bin first.
\<close>

theorem optimize_route_tsp_fp_is_greedy_witness:
  "optimize_route_tsp_fp calculate_distance (+) (0, 0) [bin_far, bin_near]
     = Inr ([bin_near, bin_far], 6371 * math_radians 1 + 6371 * math_radians 1)
   \<and> [bin_near, bin_far] = greedy_order_by (dval calculate_distance) (0, 0) [bin_far, bin_near]
   \<and> 6371 * math_radians 1 + 6371 * math_radians 1
       = running_total (+) (dval calculate_distance) (0, 0) [bin_near, bin_far]
   \<and> optimize_route_tsp_fp calculate_distance (+) (0, 0) [] = Inr ([], 0)"
proof -
  have x: "optimize_route_tsp_fp calculate_distance (+) (0, 0) [bin_far, bin_near]
      = Inr ([bin_near, bin_far], 6371 * math_radians 1 + 6371 * math_radians 1)"
    by (simp add: optimize_route_tsp_exact optimize_route_tsp_greedy example_greedy example_total)
  from optimize_route_tsp_fp_is_greedy
    [of calculate_distance "(+)" "(0, 0)" "[bin_far, bin_near]" "[bin_near, bin_far]"
        "6371 * math_radians 1 + 6371 * math_radians 1"] x
  show ?thesis by blast
qed



text \<open>
  C9. The result of the solver is fixed by its arguments and the machine's arithmetic.
  Whenever it returns, the returned order is the one and only order that follows the
  tie-break rule: at every step the first waypoint, in the order of the remaining pool,
  among those whose computed distance from the current position is minimal, two
  waypoints being equidistant when their computed distances are equal. The returned
  total is the running total of the legs of that order. Two calls on the same start and
  the same waypoint list therefore return the same order and the same total.
\<close>

theorem optimize_route_tsp_fp_deterministic:
  "optimize_route_tsp_fp cd add start bins = Inr (order, tot) \<longrightarrow>
     follows_rule (dval cd) start bins order
     \<and> (\<forall>order'. follows_rule (dval cd) start bins order' \<longrightarrow> order' = order)
     \<and> tot = running_total add (dval cd) start order"
proof (intro impI)
  assume r: "optimize_route_tsp_fp cd add start bins = Inr (order, tot)"
  have res: "order = greedy_order_by (dval cd) start bins
      \<and> tot = foldl add 0 (legs (dval cd) start (greedy_order_by (dval cd) start bins))"
  proof (cases "bins = []")
    case True
    with r show ?thesis by (simp add: optimize_route_tsp_fp_def greedy_order_by_Nil)
  next
    case False
    with r have "tsp_loop_fp cd add start bins [] 0 = Inr (order, tot)"
      by (simp add: optimize_route_tsp_fp_def)
    from tsp_loop_fp_result [OF this] show ?thesis by simp
  qed
  then have "follows_rule (dval cd) start bins order"
    by (simp add: follows_rule_iff)
  moreover have "\<forall>order'. follows_rule (dval cd) start bins order' \<longrightarrow> order' = order"
    using res by (simp add: follows_rule_iff)
  moreover have "tot = running_total add (dval cd) start order"
    using res by (simp add: running_total_def)
  ultimately show "follows_rule (dval cd) start bins order
     \<and> (\<forall>order'. follows_rule (dval cd) start bins order' \<longrightarrow> order' = order)
     \<and> tot = running_total add (dval cd) start order"
    by blast
qed

text \<open>
  The truck at (5, 0) and the bins at latitudes 6 and 4, one degree away on either side.
  In exact arithmetic the two are equidistant. \<open>cd_doubles\<close> and \<open>add_doubles\<close> hold
  the doubles of a run in double precision: the computed distance to the bin at latitude
  4 is the smaller one by six units in the last place, so that bin is visited first,
  although it is second in the list, and the other order does not follow the rule.
  The second run has two bins at the same coordinates: the computed distances are
  equal, and the bin that comes first in the list is visited first.
\<close>

theorem optimize_route_tsp_fp_deterministic_witness:
  "optimize_route_tsp_fp cd_doubles add_doubles (5, 0) [bin_6, bin_4]
     = Inr ([bin_4, bin_6], 2934242755089401 / 2 ^ 43)
   \<and> follows_rule (dval cd_doubles) (5, 0) [bin_6, bin_4] [bin_4, bin_6]
   \<and> \<not> follows_rule (dval cd_doubles) (5, 0) [bin_6, bin_4] [bin_6, bin_4]
   \<and> 2934242755089401 / 2 ^ 43 = running_total add_doubles (dval cd_doubles) (5, 0) [bin_4, bin_6]
   \<and> optimize_route_tsp_fp calculate_distance (+) (0, 0) [bin_near\<lparr>bin_id := ''3''\<rparr>, bin_near]
       = Inr ([bin_near\<lparr>bin_id := ''3''\<rparr>, bin_near], 6371 * math_radians 1)
   \<and> follows_rule (dval calculate_distance) (0, 0) [bin_near\<lparr>bin_id := ''3''\<rparr>, bin_near]
         [bin_near\<lparr>bin_id := ''3''\<rparr>, bin_near]
   \<and> \<not> follows_rule (dval calculate_distance) (0, 0) [bin_near\<lparr>bin_id := ''3''\<rparr>, bin_near]
         [bin_near, bin_near\<lparr>bin_id := ''3''\<rparr>]"
proof -
  have ne: "[bin_6, bin_4] \<noteq> [bin_4, bin_6]" by (simp add: bin_4_def bin_6_def)
  have ne': "[bin_near, bin_near\<lparr>bin_id := ''3''\<rparr>] \<noteq> [bin_near\<lparr>bin_id := ''3''\<rparr>, bin_near]"
    by (simp add: bin_near_def)
  from optimize_route_tsp_fp_deterministic
    [of cd_doubles add_doubles "(5, 0)" "[bin_6, bin_4]" "[bin_4, bin_6]"
        "2934242755089401 / 2 ^ 43"]
    optimize_route_tsp_fp_deterministic
    [of calculate_distance "(+)" "(0, 0)" "[bin_near\<lparr>bin_id := ''3''\<rparr>, bin_near]"
        "[bin_near\<lparr>bin_id := ''3''\<rparr>, bin_near]" "6371 * math_radians 1"]
    example_doubles_run example_tie_run ne ne'
  show ?thesis by blast
qed

section \<open>Claims about the route evaluator\<close>

text \<open>
  C3. Whenever the truck position is unset (its latitude or its longitude is None), the
  evaluator answers with the descriptive error "Truck GPS not received yet ..." and
  status 400: it computes no route, returns no zero route, and puts no default position
  in place of the missing one.
\<close>

theorem optimize_route_position_unset:
  "truck_lat t = None \<or> truck_lon t = None \<Longrightarrow>
   optimize_route sh t ds
     = ErrorResponse ''Truck GPS not received yet. Open /gps on your phone and press Start Tracking.'' 400"
  by (auto simp: optimize_route_def gps_missing_def)

theorem optimize_route_position_unset_witness:
  "optimize_route id truck_unset dustbins_two
     = ErrorResponse ''Truck GPS not received yet. Open /gps on your phone and press Start Tracking.'' 400
   \<and> optimize_route id truck_origin dustbins_two \<noteq> optimize_route id truck_unset dustbins_two"
proof -
  have u: "truck_lat truck_unset = None \<or> truck_lon truck_unset = None"
    by (simp add: example_truck)
  have "bins_to_collect dustbins_two \<noteq> []" by (simp add: example_bins)
  then have "\<exists>ev. optimize_route id truck_origin dustbins_two = Evaluation ev"
    by (simp add: optimize_route_eval [OF example_truck(1,2)] Let_def)
  with optimize_route_position_unset [OF u, of id dustbins_two] show ?thesis by auto
qed








text \<open>
  C10, as amended. With exactly two waypoints, every rearrangement of them gives the same
  baseline distance, the distance between the two, and it is never more than the
  solver's total. The efficiency gain and the savings are therefore never positive,
  before rounding and as reported, whatever the shuffle does.
\<close>

theorem two_waypoints_never_positive:
  assumes "optimize_route sh t ds = Evaluation ev"
    and "bins_to_collect ds = [a, b]"
    and "mset (sh [a, b]) = mset [a, b]"
  shows "\<exists>la lo order od rd.
      truck_lat t = Some la \<and> truck_lon t = Some lo
      \<and> optimize_route_tsp (la, lo) [a, b] = Inr (order, od)
      \<and> baseline_distance (sh [a, b]) = Inr rd
      \<and> calculate_distance (bin_lat a) (bin_lon a) (bin_lat b) (bin_lon b) = Inr rd
      \<and> rd \<le> od
      \<and> efficiency_v (derive_metrics od rd) \<le> 0
      \<and> savings_v (derive_metrics od rd) \<le> 0
      \<and> efficiency_gain ev = py_round (efficiency_v (derive_metrics od rd))
      \<and> savings ev = py_round (savings_v (derive_metrics od rd))
      \<and> efficiency_gain ev \<le> 0
      \<and> savings ev \<le> 0"
proof -
  from assms(1) obtain la lo where
    t: "truck_lat t = Some la" "truck_lon t = Some lo" and ne: "bins_to_collect ds \<noteq> []"
    using optimize_route_Evaluation by blast
  define rd where "rd = distance (bin_pos a) (bin_pos b)"
  define od where "od = route_total (la, lo) (greedy_order (la, lo) [a, b])"
  have tsp: "optimize_route_tsp (la, lo) [a, b] = Inr (greedy_order (la, lo) [a, b], od)"
    by (simp add: optimize_route_tsp_greedy od_def)
  have base: "consecutive_sum (sh [a, b]) = rd"
    unfolding rd_def using assms(3) by (rule two_bins_baseline)
  then have bd: "baseline_distance (sh [a, b]) = Inr rd"
    by (simp add: baseline_distance_eq)
  have cd: "calculate_distance (bin_lat a) (bin_lon a) (bin_lat b) (bin_lon b) = Inr rd"
    by (simp add: calculate_distance_eq rd_def bin_pos_def)
  have "od = min (distance (la, lo) (bin_pos a)) (distance (la, lo) (bin_pos b)) + rd"
    by (simp add: od_def rd_def two_bins_total)
  moreover have "0 \<le> min (distance (la, lo) (bin_pos a)) (distance (la, lo) (bin_pos b))"
    by (simp add: distance_nonneg)
  ultimately have le: "rd \<le> od" by simp
  have neg: "efficiency_v (derive_metrics od rd) \<le> 0" "savings_v (derive_metrics od rd) \<le> 0"
    using le by (rule metrics_nonpos)+
  have eg: "efficiency_gain ev = py_round (efficiency_v (derive_metrics od rd))"
    and sv: "savings ev = py_round (savings_v (derive_metrics od rd))"
    using assms(1)
    by (auto simp: optimize_route_eval [OF t ne] Let_def assms(2) base od_def)
  have "efficiency_gain ev \<le> 0" "savings ev \<le> 0"
    using neg by (simp_all add: eg sv py_round_nonpos)
  with t tsp bd cd le neg eg sv show ?thesis by blast
qed

theorem two_waypoints_never_positive_witness:
  "\<exists>ev rd. optimize_route rev truck_origin dustbins_two = Evaluation ev
     \<and> baseline_distance (rev [bin_near, bin_far]) = Inr rd
     \<and> calculate_distance (bin_lat bin_near) (bin_lon bin_near) (bin_lat bin_far) (bin_lon bin_far) = Inr rd
     \<and> efficiency_gain ev \<le> 0 \<and> savings ev \<le> 0"
proof -
  have ne: "bins_to_collect dustbins_two \<noteq> []" by (simp add: example_bins)
  obtain ev where ev: "optimize_route rev truck_origin dustbins_two = Evaluation ev"
    by (simp add: optimize_route_eval [OF example_truck(1,2) ne] Let_def)
  have m: "mset (rev [bin_near, bin_far]) = mset [bin_near, bin_far]" by simp
  from two_waypoints_never_positive [OF ev example_bins(2) m] ev
  show ?thesis by blast
qed

text \<open>
  C10 as stated fails: with the truck 0.00001 degrees south of the nearer of two bins
  that are one degree apart, the efficiency gain is -0.001 per cent and the savings are
  about -0.009 before rounding, so both reported figures are 0, not negative.
\<close>

theorem two_waypoints_reported_zero:
  "optimize_route id truck_close dustbins_two =
     Evaluation
       \<lparr>optimal_distance = py_round2 (6371 * math_radians 0.00001 + 6371 * math_radians 1),
        random_distance = py_round2 (6371 * math_radians 1),
        optimal_fuel = py_round2 ((6371 * math_radians 0.00001 + 6371 * math_radians 1) / 12),
        optimal_cost = py_round ((6371 * math_radians 0.00001 + 6371 * math_radians 1) / 12 * 100),
        savings = 0,
        efficiency_gain = 0,
        route = [(''1'', ''Near''), (''2'', ''Far'')]\<rparr>
   \<and> bins_to_collect dustbins_two = [bin_near, bin_far]
   \<and> bin_pos bin_near \<noteq> bin_pos bin_far
   \<and> 0 < distance (0.99999, 0) (bin_pos bin_near)
   \<and> distance (0.99999, 0) (bin_pos bin_near) < distance (0.99999, 0) (bin_pos bin_far)"
proof -
  have ne: "bins_to_collect dustbins_two \<noteq> []" by (simp add: example_bins)
  have m: "optimal_fuel_v (derive_metrics od rd) = od / 12"
    "fuel_cost_v (derive_metrics od rd) = od / 12 * 100" for od rd
    by (simp_all add: derive_metrics_def Let_def)
  have r: "route = [(''1'', ''Near''), (''2'', ''Far'')]"
    if "route = map (\<lambda>b. (bin_id b, bin_name b)) [bin_near, bin_far]" for route
    using that by (simp add: bin_near_def bin_far_def)
  have 1: "optimize_route id truck_close dustbins_two =
     Evaluation
       \<lparr>optimal_distance = py_round2 (6371 * math_radians 0.00001 + 6371 * math_radians 1),
        random_distance = py_round2 (6371 * math_radians 1),
        optimal_fuel = py_round2 ((6371 * math_radians 0.00001 + 6371 * math_radians 1) / 12),
        optimal_cost = py_round ((6371 * math_radians 0.00001 + 6371 * math_radians 1) / 12 * 100),
        savings = 0,
        efficiency_gain = 0,
        route = [(''1'', ''Near''), (''2'', ''Far'')]\<rparr>"
    unfolding optimize_route_eval [OF example_close_truck ne] Let_def example_bins id_apply
      example_close_greedy example_close_total example_baseline example_close_metrics m
    by (simp add: bin_near_def bin_far_def)
  have 2: "bin_pos bin_near \<noteq> bin_pos bin_far"
    by (simp add: bin_pos_def bin_near_def bin_far_def)
  from 1 2 example_close_order example_bins(2) show ?thesis by simp
qed

end
